theory Spec2Isabelle
  imports Main "HOL-Library.Sublist" "HOL-Library.Char_ord" "HOL-Library.List_Lexorder"
begin

section \<open>Result model\<close>

text \<open>
  A witness is an arbitrary JavaScript value.  The parsers modelled here produce
  \<open>null\<close> (the initial Success), strings and arrays of witnesses.
\<close>

datatype witness = WNull | WStr string | WList "witness list"

text \<open>
  Calling a parser either returns its pair of results or does not return normally:
  a JavaScript \<open>TypeError\<close> (spreading or joining a value that is not an array), or a
  recursion that never ends, which the model cuts off with a recursion budget.
\<close>

datatype error = TypeError | OutOfFuel

text \<open>
  Offsets into the input are natural numbers.  \<open>furthestSuccess\<close> is
  \<open>Math.max\<close> over the ends of a list of Successes, which is \<open>-Infinity\<close> for
  the empty list, and a Failure may be built at that value, so the type of a Failure's
  end has this extra least element.
\<close>

datatype offset = NegInfinity | Offset nat

instantiation offset :: linorder
begin

fun less_eq_offset :: "offset \<Rightarrow> offset \<Rightarrow> bool" where
  "less_eq_offset NegInfinity y = True"
| "less_eq_offset (Offset m) NegInfinity = False"
| "less_eq_offset (Offset m) (Offset n) = (m \<le> n)"

definition less_offset :: "offset \<Rightarrow> offset \<Rightarrow> bool" where
  "less_offset x y = (x \<le> y \<and> \<not> y \<le> x)"

instance
proof
  fix x y z :: offset
  show "(x < y) = (x \<le> y \<and> \<not> y \<le> x)"
    by (simp add: less_offset_def)
  show "x \<le> x"
    by (cases x) simp_all
  show "x \<le> y \<Longrightarrow> y \<le> z \<Longrightarrow> x \<le> z"
    by (cases x; cases y; cases z) simp_all
  show "x \<le> y \<Longrightarrow> y \<le> x \<Longrightarrow> x = y"
    by (cases x; cases y) simp_all
  show "x \<le> y \<or> y \<le> x"
    by (cases x; cases y) auto
qed

end

text \<open>
  Annotation objects are compared by reference wherever the program puts them into a
  \<open>Set\<close>, so the lists carried by Successes and Failures hold references; the
  fields of the object behind a reference are read from a store.  A label is an object
  with string-valued fields, kept as its list of key and value pairs.
\<close>

type_synonym aref = nat

type_synonym label = "(string \<times> string) list"

record annotation =
  a_label :: label
  a_start :: nat
  a_end :: nat

type_synonym store = "aref \<rightharpoonup> annotation"

record 'c success =
  s_annotations :: "aref list"
  s_context :: 'c
  s_end :: nat
  s_witness :: witness

record failure =
  f_annotations :: "aref list"
  f_completions :: "string list"
  f_end :: offset
  f_pause :: bool

text \<open>\<open>Success.initial(context)\<close>.\<close>

definition initial :: "'c \<Rightarrow> 'c success" where
  "initial context =
     \<lparr>s_annotations = [], s_context = context, s_end = 0, s_witness = WNull\<rparr>"

text \<open>
  The constructor of \<open>Failure\<close>: its fourth argument is optional and defaults to
  \<open>completions.length == 0\<close>.
\<close>

definition Failure :: "aref list \<Rightarrow> string list \<Rightarrow> offset \<Rightarrow> bool option \<Rightarrow> failure" where
  "Failure annotations completions end' pause =
     \<lparr>f_annotations = annotations,
      f_completions = completions,
      f_end = end',
      f_pause = (case pause of None \<Rightarrow> length completions = 0 | Some p \<Rightarrow> p)\<rparr>"

text \<open>
  A parser takes the input and a Success and returns a list of Successes and a Failure
  or a false value (\<open>null\<close> or \<open>false\<close>: the program only ever tests it for
  truth), here \<open>None\<close>.
\<close>

type_synonym 'c result = "'c success list \<times> failure option"

type_synonym 'c parser = "string \<Rightarrow> 'c success \<Rightarrow> error + 'c result"

section \<open>Matching a constant\<close>

text \<open>\<open>string[i]\<close>: the character at an index, \<open>undefined\<close> out of range.\<close>

definition char_at :: "string \<Rightarrow> int \<Rightarrow> char option" where
  "char_at string i =
     (if 0 \<le> i \<and> i < int (length string) then Some (string ! nat i) else None)"

text \<open>The loop of \<open>substringMatchForward\<close>; it returns the final \<open>i\<close>.\<close>

function match_loop :: "string \<Rightarrow> string \<Rightarrow> int \<Rightarrow> int \<Rightarrow> int \<Rightarrow> int" where
  "match_loop string1 string2 stop1 i j =
     (if i < stop1 \<and> char_at string1 i = char_at string2 j
      then match_loop string1 string2 stop1 (i + 1) (j + 1)
      else i)"
  by pat_completeness auto
termination
  by (relation "measure (\<lambda>(string1, string2, stop1, i, j). nat (stop1 - i))") auto

declare match_loop.simps [simp del]

definition substringMatchForward ::
  "string \<Rightarrow> int \<Rightarrow> int \<Rightarrow> string \<Rightarrow> int \<Rightarrow> int \<Rightarrow> int" where
  "substringMatchForward string1 start1 end1 string2 start2 end2 =
     (let stop1 = start1 + min (end1 - start1) (end2 - start2)
      in match_loop string1 string2 stop1 start1 start2 - start1)"

text \<open>\<open>string.slice(k)\<close>: a negative \<open>k\<close> counts from the end.\<close>

definition slice :: "string \<Rightarrow> int \<Rightarrow> string" where
  "slice string k =
     (if k < 0 then drop (nat (int (length string) + k)) string else drop (nat k) string)"

text \<open>
  \<open>parseConstant(constant, witness)\<close>; the default of the second argument is the
  constant itself, \<open>parseConstant constant (WStr constant)\<close>.
\<close>

definition parseConstant :: "string \<Rightarrow> witness \<Rightarrow> 'c parser" where
  "parseConstant constant witness input success =
     (let size' = int (length constant);
          start = int (s_end success);
          comparisonSize = min size' (int (length input) - start);
          matchSize = substringMatchForward
                        input start (start + comparisonSize) constant 0 comparisonSize
      in if matchSize = size'
         then Inr ([\<lparr>s_annotations = s_annotations success,
                     s_context = s_context success,
                     s_end = nat (start + size'),
                     s_witness = witness\<rparr>],
                   None)
         else Inr ([],
                   Some (Failure [] [slice constant matchSize]
                           (Offset (nat (start + matchSize))) (Some False))))"

definition parseFail :: "'c parser" where
  "parseFail input success =
     Inr ([], Some (Failure [] [] (Offset (s_end success)) (Some False)))"

definition parseEmpty :: "witness \<Rightarrow> 'c parser" where
  "parseEmpty witness input success =
     Inr ([\<lparr>s_annotations = s_annotations success,
            s_context = s_context success,
            s_end = s_end success,
            s_witness = witness\<rparr>],
          None)"

section \<open>Merging failures\<close>

text \<open>\<open>Math.max\<close> over the ends of the Successes.\<close>

definition furthestSuccess :: "'c success list \<Rightarrow> offset" where
  "furthestSuccess successes = foldr max (map (\<lambda>s. Offset (s_end s)) successes) NegInfinity"

text \<open>
  \<open>normalizeCompletions\<close>.  \<open>sort()\<close> with no comparison function orders strings
  by their code units, a proper prefix first; \<open>startsWith\<close> is the prefix test.
  The loop carries the accumulator and the index \<open>i\<close> of its last element.
\<close>

definition normalizeCompletions :: "string list \<Rightarrow> string list" where
  "normalizeCompletions completions =
     (if length completions = 0 then []
      else
        let sorted' = sort completions;
            accumulator = take 1 sorted';
            i = (0::nat)
        in fst (foldl (\<lambda>(accumulator, i) c.
                         if \<not> prefix (accumulator ! i) c
                         then (accumulator @ [c], i + 1)
                         else (accumulator, i))
                  (accumulator, i) (drop 1 sorted')))"

text \<open>
  A JavaScript \<open>Set\<close> keeps its elements in insertion order and holds none twice:
  a list without repetition.  Two object references are the same element exactly when
  they are the same reference; strings when they are the same string.
\<close>

definition set_add :: "'a list \<Rightarrow> 'a \<Rightarrow> 'a list" where
  "set_add s x = (if x \<in> set s then s else s @ [x])"

definition new_Set :: "'a list \<Rightarrow> 'a list" where
  "new_Set xs = foldl set_add [] xs"

definition mergeAnnotations :: "aref list \<Rightarrow> aref list \<Rightarrow> aref list" where
  "mergeAnnotations annotations1 annotations2 =
     (let result = new_Set annotations1
      in foldl set_add result annotations2)"

text \<open>
  \<open>Annotation.equals\<close>, on the fields of two annotation objects.  Reading a key that
  a label lacks gives \<open>undefined\<close>, here \<open>None\<close>.
\<close>

definition labelsEqual :: "label \<Rightarrow> label \<Rightarrow> bool" where
  "labelsEqual label1 label2 =
     (let keys1 = map fst label1;
          keys2 = map fst label2
      in if length keys1 \<noteq> length keys2 then False
         else list_all (\<lambda>k1. \<not> (map_of label1 k1 \<noteq> map_of label2 k1)) keys1)"

definition equals :: "annotation \<Rightarrow> annotation \<Rightarrow> bool" where
  "equals this annotation =
     (a_start annotation = a_start this
      \<and> a_end annotation = a_end this
      \<and> labelsEqual (a_label annotation) (a_label this))"

definition prependAnnotations :: "failure \<Rightarrow> aref list \<Rightarrow> failure" where
  "prependAnnotations this annotations =
     Failure (annotations @ f_annotations this) (f_completions this) (f_end this)
       (Some (f_pause this))"

definition mergeFailures :: "failure option \<Rightarrow> failure option \<Rightarrow> failure option" where
  "mergeFailures f1 f2 =
     (case f1 of
        None \<Rightarrow> f2
      | Some f1' \<Rightarrow>
          (case f2 of
             None \<Rightarrow> f1
           | Some f2' \<Rightarrow>
               (let e1 = f_end f1';
                    e2 = f_end f2'
                in if e1 = e2
                   then Some (Failure
                                (mergeAnnotations (f_annotations f1') (f_annotations f2'))
                                (normalizeCompletions (f_completions f1' @ f_completions f2'))
                                e1
                                (Some (f_pause f1' \<or> f_pause f2')))
                   else if e1 < e2 then f2 else f1)))"

text \<open>The expression \<open>f && f.end >= furthest && f\<close>.\<close>

definition failure_from :: "offset \<Rightarrow> failure option \<Rightarrow> failure option" where
  "failure_from furthest f =
     (case f of None \<Rightarrow> None | Some f' \<Rightarrow> if f_end f' \<ge> furthest then f else None)"

section \<open>Combinators\<close>

definition parseAlternatives :: "'c parser \<Rightarrow> 'c parser \<Rightarrow> 'c parser" where
  "parseAlternatives parser1 parser2 input success =
     (case parser1 input success of
        Inl e \<Rightarrow> Inl e
      | Inr (s1, f1) \<Rightarrow>
          (case parser2 input success of
             Inl e \<Rightarrow> Inl e
           | Inr (s2, f2) \<Rightarrow>
               (let successes = s1 @ s2;
                    furthest = furthestSuccess successes
                in Inr (successes,
                        mergeFailures (failure_from furthest f1) (failure_from furthest f2)))))"

definition parseChoice :: "'c parser list \<Rightarrow> 'c parser" where
  "parseChoice parsers = foldl parseAlternatives parseFail parsers"

text \<open>\<open>array.map(f)\<close> for an \<open>f\<close> that may throw: the first exception ends the map.\<close>

fun map_throwing :: "('a \<Rightarrow> error + 'b) \<Rightarrow> 'a list \<Rightarrow> error + 'b list" where
  "map_throwing f [] = Inr []"
| "map_throwing f (x # xs) =
     (case f x of
        Inl e \<Rightarrow> Inl e
      | Inr y \<Rightarrow> (case map_throwing f xs of Inl e \<Rightarrow> Inl e | Inr ys \<Rightarrow> Inr (y # ys)))"

text \<open>
  The loop of \<open>parseChain\<close> over \<open>successes1\<close>, on the variables \<open>failure\<close>,
  \<open>furthest\<close> and \<open>successes\<close>.
\<close>

fun chain_loop ::
  "(witness \<Rightarrow> witness \<Rightarrow> error + witness) \<Rightarrow> ('c success \<Rightarrow> 'c parser) \<Rightarrow> string \<Rightarrow>
   'c success list \<Rightarrow> failure option \<times> offset \<times> 'c success list list \<Rightarrow>
   error + (failure option \<times> offset \<times> 'c success list list)" where
  "chain_loop mergeWitnesses chain input [] state = Inr state"
| "chain_loop mergeWitnesses chain input (s1 # rest) (failure, furthest, successes) =
     (case chain s1 input s1 of
        Inl e \<Rightarrow> Inl e
      | Inr (s2, f2) \<Rightarrow>
          (let failure' = mergeFailures failure
                            (map_option (\<lambda>f. prependAnnotations f (s_annotations s1)) f2);
               furthest' = max furthest (furthestSuccess s2);
               annotations1 = s_annotations s1;
               witness1 = s_witness s1
           in case map_throwing
                     (\<lambda>s. case mergeWitnesses witness1 (s_witness s) of
                            Inl e \<Rightarrow> Inl e
                          | Inr w \<Rightarrow> Inr \<lparr>s_annotations = s_annotations s,
                                          s_context = s_context s,
                                          s_end = s_end s,
                                          s_witness = w\<rparr>)
                     s2 of
                Inl e \<Rightarrow> Inl e
              | Inr merged \<Rightarrow>
                  chain_loop mergeWitnesses chain input rest
                    (failure', furthest', successes @ [merged])))"

definition parseChain ::
  "(witness \<Rightarrow> witness \<Rightarrow> error + witness) \<Rightarrow> 'c parser \<Rightarrow> ('c success \<Rightarrow> 'c parser) \<Rightarrow>
   'c parser" where
  "parseChain mergeWitnesses parser1 chain input success =
     (case parser1 input success of
        Inl e \<Rightarrow> Inl e
      | Inr (successes1, failure1) \<Rightarrow>
          (case chain_loop mergeWitnesses chain input successes1 (failure1, Offset 0, []) of
             Inl e \<Rightarrow> Inl e
           | Inr (failure, furthest, successes) \<Rightarrow>
               Inr (concat successes, failure_from furthest failure)))"

definition parseThen ::
  "(witness \<Rightarrow> witness \<Rightarrow> error + witness) \<Rightarrow> 'c parser \<Rightarrow> 'c parser \<Rightarrow> 'c parser" where
  "parseThen mergeWitnesses parser1 parser2 =
     parseChain mergeWitnesses parser1 (\<lambda>success. parser2)"

definition parseTransform :: "'c parser \<Rightarrow> (witness \<Rightarrow> error + witness) \<Rightarrow> 'c parser" where
  "parseTransform parser transform input success =
     (case parser input success of
        Inl e \<Rightarrow> Inl e
      | Inr (successes, failure) \<Rightarrow>
          (case map_throwing
                  (\<lambda>s. case transform (s_witness s) of
                         Inl e \<Rightarrow> Inl e
                       | Inr w \<Rightarrow> Inr \<lparr>s_annotations = s_annotations s,
                                       s_context = s_context s,
                                       s_end = s_end s,
                                       s_witness = w\<rparr>)
                  successes of
             Inl e \<Rightarrow> Inl e
           | Inr successes' \<Rightarrow> Inr (successes', failure)))"

text \<open>
  The loop of \<open>categorize\<close>: each element is pushed onto \<open>positives\<close> or onto
  \<open>negatives\<close>.
\<close>

definition categorize :: "'a list \<Rightarrow> ('a \<Rightarrow> bool) \<Rightarrow> 'a list \<times> 'a list" where
  "categorize array predicate =
     foldl (\<lambda>(positives, negatives) x.
              if predicate x then (positives @ [x], negatives)
              else (positives, negatives @ [x]))
       ([], []) array"

text \<open>
  The array \<open>[w1, ...w2]\<close>: spreading takes the elements of an array or the
  characters of a string, and throws on \<open>null\<close>.
\<close>

definition spread :: "witness \<Rightarrow> error + witness list" where
  "spread w =
     (case w of
        WList ws \<Rightarrow> Inr ws
      | WStr s \<Rightarrow> Inr (map (\<lambda>c. WStr [c]) s)
      | WNull \<Rightarrow> Inl TypeError)"

definition cons_spread :: "witness \<Rightarrow> witness \<Rightarrow> error + witness" where
  "cons_spread w1 w2 = (case spread w2 of Inl e \<Rightarrow> Inl e | Inr ws \<Rightarrow> Inr (WList (w1 # ws)))"

text \<open>
  \<open>parseStar\<close>.  Its inner \<open>parseKleene()\<close> calls itself each time the parser for
  the rest of the input runs; the first argument bounds the depth of these calls, and a
  run that needs more ends in \<open>OutOfFuel\<close>.
\<close>

fun parseKleene :: "nat \<Rightarrow> 'c parser \<Rightarrow> 'c parser" where
  "parseKleene 0 parser = (\<lambda>input success. Inl OutOfFuel)"
| "parseKleene (Suc fuel) parser =
     parseAlternatives
       (parseEmpty (WList []))
       (parseThen cons_spread
          parser
          (\<lambda>input success. parseKleene fuel parser input success))"

definition parseStar ::
  "nat \<Rightarrow> (witness \<Rightarrow> error + witness) \<Rightarrow> 'c parser \<Rightarrow> 'c parser" where
  "parseStar fuel mergeWitnesses parser = parseTransform (parseKleene fuel parser) mergeWitnesses"

definition parseNonEmpty :: "'c parser \<Rightarrow> 'c parser" where
  "parseNonEmpty parser input success =
     (case parser input success of
        Inl e \<Rightarrow> Inl e
      | Inr (successes, failure) \<Rightarrow>
          (let start = s_end success;
               (empties, nonEmpties) = categorize successes (\<lambda>s. start = s_end s)
           in if length empties = 0
              then Inr (successes, failure)
              else Inr (nonEmpties,
                        (case failure of
                           Some f \<Rightarrow> Some f
                         | None \<Rightarrow> Some (Failure [] [] (Offset start) (Some False))))))"

definition mergeSuccessAnnotations :: "'c success list \<Rightarrow> aref list" where
  "mergeSuccessAnnotations successes =
     (let annotations = map s_annotations successes
      in foldl mergeAnnotations [] annotations)"

definition parseWithCompletions ::
  "('c \<Rightarrow> failure option \<Rightarrow> nat \<Rightarrow> string list) \<Rightarrow> 'c parser \<Rightarrow> 'c parser" where
  "parseWithCompletions makeCompletions parser input success =
     (case parser input success of
        Inl e \<Rightarrow> Inl e
      | Inr (successes, failure) \<Rightarrow>
          (let completions = makeCompletions (s_context success) failure (s_end success)
           in case failure of
                Some f \<Rightarrow>
                  Inr (successes,
                       Some (Failure (f_annotations f) completions (f_end f) (Some False)))
              | None \<Rightarrow>
                  if length completions = 0
                  then Inr (successes, None)
                  else Inr (successes,
                            Some (Failure (mergeSuccessAnnotations successes)
                                    completions
                                    (furthestSuccess successes)
                                    (Some False)))))"

text \<open>
  The function \<open>witnesses => witnesses.join("")\<close> that \<open>parseString\<close> gives to
  \<open>parseStar\<close>.  \<open>join\<close> turns \<open>null\<close> into the empty string and an inner
  array into its elements joined by commas; a value that is not an array has no
  \<open>join\<close>.
\<close>

fun join_with :: "string \<Rightarrow> string list \<Rightarrow> string" where
  "join_with separator [] = []"
| "join_with separator [x] = x"
| "join_with separator (x # y # ys) = x @ separator @ join_with separator (y # ys)"

fun toString :: "witness \<Rightarrow> string" where
  "toString WNull = ''null''"
| "toString (WStr s) = s"
| "toString (WList ws) =
     join_with '','' (map (\<lambda>w. if w = WNull then [] else toString w) ws)"

definition join :: "witness \<Rightarrow> error + witness" where
  "join witnesses =
     (case witnesses of
        WList ws \<Rightarrow>
          Inr (WStr (join_with [] (map (\<lambda>w. if w = WNull then [] else toString w) ws)))
      | WStr s \<Rightarrow> Inl TypeError
      | WNull \<Rightarrow> Inl TypeError)"

text \<open>
  \<open>parseSubset\<close>, called with an array of constants.  An array has no \<open>size\<close>,
  so the test \<open>constants.size == 0\<close> compares \<open>undefined\<close> with zero and is
  false.  \<open>choices\<close> is a \<open>Set\<close> of strings; \<open>delete\<close> removes the witness
  from it when the witness is one of its strings.  The first argument bounds the depth
  of the calls of the inner function \<open>choose\<close>, as for \<open>parseKleene\<close>.
\<close>

definition set_delete :: "string list \<Rightarrow> witness \<Rightarrow> string list" where
  "set_delete s w = (case w of WStr c \<Rightarrow> filter (\<lambda>x. x \<noteq> c) s | _ \<Rightarrow> s)"

fun choose_subset :: "nat \<Rightarrow> 'c parser \<Rightarrow> string list \<Rightarrow> 'c parser" where
  "choose_subset 0 parseSeparator choices = (\<lambda>input success. Inl OutOfFuel)"
| "choose_subset (Suc fuel) parseSeparator choices =
     parseChain
       cons_spread
       (parseChoice (map (\<lambda>c. parseConstant c (WStr c)) choices))
       (\<lambda>success.
          let fewer = set_delete (new_Set choices) (s_witness success)
          in if length fewer = 0
             then parseEmpty (WList [])
             else parseAlternatives
                    (parseEmpty (WList []))
                    (parseThen (\<lambda>s f. Inr f) parseSeparator (choose_subset fuel parseSeparator fewer)))"

definition parseSubset :: "nat \<Rightarrow> string list \<Rightarrow> 'c parser \<Rightarrow> 'c parser" where
  "parseSubset fuel constants parseSeparator =
     parseAlternatives (parseEmpty (WList [])) (choose_subset fuel parseSeparator (new_Set constants))"

section \<open>Checking results\<close>

text \<open>
  \<open>parseCheckInvariants(parser)\<close> runs the parser, passes its result on and makes
  three assertions; \<open>console.assert\<close> reports an assertion that does not hold, and
  the model returns the list of those reported, in the order of the program.  First, for
  each Success in turn, \<open>s.witness != undefined\<close>: this is false for the witness
  \<open>null\<close> too, since \<open>null == undefined\<close> in JavaScript.  Then the two
  invariants of a result: a Failure does not end before the furthest Success, and
  without a Failure there is a Success.
\<close>

datatype assertion =
  UndefinedWitness | FailureEndBeforeFurthestSuccess | NoFailureAndNoSuccess

definition parseCheckInvariants ::
  "'c parser \<Rightarrow> string \<Rightarrow> 'c success \<Rightarrow> error + ('c result \<times> assertion list)" where
  "parseCheckInvariants parser input success =
     (case parser input success of
        Inl e \<Rightarrow> Inl e
      | Inr (successes, failure) \<Rightarrow>
          (let furthest = furthestSuccess successes
           in Inr ((successes, failure),
                   concat (map (\<lambda>s. if s_witness s \<noteq> WNull then [] else [UndefinedWitness])
                             successes)
                   @ (case failure of
                        Some f \<Rightarrow>
                          if furthest \<le> f_end f then [] else [FailureEndBeforeFurthestSuccess]
                      | None \<Rightarrow>
                          if length successes > 0 then [] else [NoFailureAndNoSuccess]))))"

text \<open>
  From the user interface: \<open>parseCommandText\<close> runs a parser on a whole text from the
  initial Success, \<open>validParses(end, successes)\<close> keeps the Successes that end at
  \<open>end\<close>, and \<open>check\<close> (in \<open>insertCharacter\<close>) takes the valid parses of the
  full text, those that consume all of it.
\<close>

definition validParses :: "nat \<Rightarrow> 'c success list \<Rightarrow> 'c success list" where
  "validParses end' successes = filter (\<lambda>s. s_end s = end') successes"

definition parseCommandText :: "'c parser \<Rightarrow> 'c \<Rightarrow> string \<Rightarrow> error + 'c result" where
  "parseCommandText parse context text = parse text (initial context)"

definition check_valid :: "'c parser \<Rightarrow> 'c \<Rightarrow> string \<Rightarrow> error + 'c success list" where
  "check_valid parse context fullText =
     (let fullLength = length fullText
      in case parseCommandText parse context fullText of
           Inl e \<Rightarrow> Inl e
         | Inr (successes, failure) \<Rightarrow> Inr (validParses fullLength successes))"

section \<open>An auxiliary function\<close>

text \<open>
  What the loop of \<open>normalizeCompletions\<close> appends to the accumulator when its last
  element is \<open>l\<close> and \<open>cs\<close> remains to be visited.
\<close>

fun retain :: "string \<Rightarrow> string list \<Rightarrow> string list" where
  "retain l [] = []"
| "retain l (c # cs) = (if prefix l c then retain l cs else c # retain c cs)"

section \<open>Order of offsets\<close>

lemma less_offset_simps [simp]:
  "Offset m < Offset n \<longleftrightarrow> m < n"
  "NegInfinity < Offset n"
  "\<not> x < NegInfinity"
  by (cases x; auto simp: less_offset_def)+

section \<open>The result of matching a constant\<close>

lemma lcp_take:
  "min (length xs) (length ys) \<le> n \<Longrightarrow>
   longest_common_prefix (take n xs) ys = longest_common_prefix xs ys"
proof (induction xs ys arbitrary: n rule: longest_common_prefix.induct)
  case (1 x xs y ys)
  then obtain k where "n = Suc k" by (cases n) auto
  with 1 show ?case by auto
qed auto

lemma lcp_full_iff_prefix:
  "length (longest_common_prefix xs ys) = length ys \<longleftrightarrow> prefix ys xs"
proof
  assume "length (longest_common_prefix xs ys) = length ys"
  moreover have "prefix (longest_common_prefix xs ys) ys"
    by (rule longest_common_prefix_prefix2)
  ultimately have "longest_common_prefix xs ys = ys"
    by (metis not_equal_is_parallel parallel_def)
  then show "prefix ys xs"
    by (metis longest_common_prefix_prefix1)
next
  assume "prefix ys xs"
  then have "prefix ys (longest_common_prefix xs ys)"
    by (simp add: longest_common_prefix_max_prefix)
  then have "length ys \<le> length (longest_common_prefix xs ys)"
    by (rule prefix_length_le)
  moreover have "length (longest_common_prefix xs ys) \<le> length ys"
    by (rule prefix_length_le) (rule longest_common_prefix_prefix2)
  ultimately show "length (longest_common_prefix xs ys) = length ys"
    by simp
qed

text \<open>
  Between indices that stay inside both strings, the loop stops after the longest
  common prefix of the two compared stretches.
\<close>

lemma match_loop_lcp:
  "0 \<le> i \<Longrightarrow> 0 \<le> j \<Longrightarrow> stop1 \<le> int (length string1) \<Longrightarrow>
   stop1 - i \<le> int (length string2) - j \<Longrightarrow>
   match_loop string1 string2 stop1 i j =
     i + int (length (longest_common_prefix
                        (take (nat (stop1 - i)) (drop (nat i) string1))
                        (drop (nat j) string2)))"
proof (induction string1 string2 stop1 i j rule: match_loop.induct)
  case (1 string1 string2 stop1 i j)
  show ?case
  proof (cases "i < stop1")
    case False
    then show ?thesis
      by (subst match_loop.simps) simp
  next
    case True
    with 1(2-5) have i: "nat i < length string1" and j: "nat j < length string2"
      by auto
    have d1: "take (nat (stop1 - i)) (drop (nat i) string1) =
                string1 ! nat i # take (nat (stop1 - (i + 1))) (drop (nat (i + 1)) string1)"
    proof -
      have "nat (stop1 - i) = Suc (nat (stop1 - (i + 1)))"
        using True by auto
      moreover have "drop (nat i) string1 = string1 ! nat i # drop (nat (i + 1)) string1"
        using i 1(2) by (simp add: Cons_nth_drop_Suc nat_add_distrib)
      ultimately show ?thesis by simp
    qed
    have d2: "drop (nat j) string2 = string2 ! nat j # drop (nat (j + 1)) string2"
      using j 1(3) by (simp add: Cons_nth_drop_Suc nat_add_distrib)
    have "i < int (length string1)" and "j < int (length string2)"
      using True 1(2-5) by auto
    then have c: "char_at string1 i = char_at string2 j \<longleftrightarrow> string1 ! nat i = string2 ! nat j"
      using 1(2,3) by (simp add: char_at_def)
    show ?thesis
    proof (cases "string1 ! nat i = string2 ! nat j")
      case False
      then show ?thesis
        using True c by (subst match_loop.simps) (simp add: d1 d2)
    next
      case eq: True
      have "match_loop string1 string2 stop1 (i + 1) (j + 1) =
              i + 1 + int (length (longest_common_prefix
                        (take (nat (stop1 - (i + 1))) (drop (nat (i + 1)) string1))
                        (drop (nat (j + 1)) string2)))"
        using 1(1)[OF conjI[OF True c[THEN iffD2, OF eq]]] 1(2-5) by simp
      then show ?thesis
        using True c eq by (subst match_loop.simps) (simp add: d1 d2)
    qed
  qed
qed

lemma matchSize_lcp:
  "substringMatchForward input (int start)
     (int start + min (int (length constant)) (int (length input) - int start))
     constant 0 (min (int (length constant)) (int (length input) - int start)) =
   int (length (longest_common_prefix (drop start input) constant))"
proof -
  let ?c = "min (int (length constant)) (int (length input) - int start)"
  have "match_loop input constant (int start + ?c) (int start) 0 =
        int start + int (length (longest_common_prefix
                        (take (nat (int start + ?c - int start)) (drop (nat (int start)) input))
                        (drop (nat 0) constant)))"
    by (rule match_loop_lcp) auto
  moreover have "longest_common_prefix (take (nat ?c) (drop start input)) constant =
                 longest_common_prefix (drop start input) constant"
    by (rule lcp_take) auto
  ultimately show ?thesis
    by (simp add: substringMatchForward_def Let_def)
qed

lemma parseConstant_cases:
  "parseConstant constant witness input success =
     (if prefix constant (drop (s_end success) input)
      then Inr ([\<lparr>s_annotations = s_annotations success,
                  s_context = s_context success,
                  s_end = s_end success + length constant,
                  s_witness = witness\<rparr>],
                None)
      else Inr ([],
                Some \<lparr>f_annotations = [],
                      f_completions =
                        [drop (length (longest_common_prefix (drop (s_end success) input) constant))
                           constant],
                      f_end =
                        Offset (s_end success
                                + length (longest_common_prefix (drop (s_end success) input)
                                            constant)),
                      f_pause = False\<rparr>))"
  unfolding parseConstant_def Let_def matchSize_lcp
  by (simp add: lcp_full_iff_prefix Failure_def slice_def nat_add_distrib flip: of_nat_add)

text \<open>
  C2.  \<open>parseConstant(constant, witness)\<close>, started at \<open>start\<close>, compares the
  constant with the rest of the input from \<open>start\<close>.  When the constant is a prefix of
  the rest (a full match) it returns exactly one Success, at \<open>start\<close> plus the length of
  the constant and with the given witness (by default the constant), and no Failure.
  Otherwise it returns no Success and one Failure whose end is \<open>start\<close> plus the length
  of the longest common prefix of the rest and the constant, whose completions are the
  one-element list of the unmatched suffix of the constant, and whose pause is false.
\<close>

theorem parseConstant_result:
  "parseConstant constant witness input success =
     (let start = s_end success;
          rest = drop start input;
          matched = length (longest_common_prefix rest constant)
      in if prefix constant rest
         then Inr ([\<lparr>s_annotations = s_annotations success,
                     s_context = s_context success,
                     s_end = start + length constant,
                     s_witness = witness\<rparr>],
                   None)
         else Inr ([],
                   Some \<lparr>f_annotations = [],
                         f_completions = [drop matched constant],
                         f_end = Offset (start + matched),
                         f_pause = False\<rparr>))"
  by (simp add: parseConstant_cases Let_def)

text \<open>
  The two instances of C2: \<open>parseConstant("launch")\<close> from position 0 on the input
  \<open>launch\<close> and on the input \<open>lau\<close>.
\<close>

theorem parseConstant_launch:
  "parseConstant ''launch'' (WStr ''launch'') ''launch'' (initial ()) =
     Inr ([\<lparr>s_annotations = [], s_context = (), s_end = 6, s_witness = WStr ''launch''\<rparr>],
          None)
   \<and> parseConstant ''launch'' (WStr ''launch'') ''lau'' (initial ()) =
     Inr ([],
          Some \<lparr>f_annotations = [], f_completions = [''nch''], f_end = Offset 3,
                f_pause = False\<rparr>)"
  using parseConstant_result [of "''launch''" "WStr ''launch''" "''launch''" "initial ()"]
        parseConstant_result [of "''launch''" "WStr ''launch''" "''lau''" "initial ()"]
  by (simp add: initial_def)

text \<open>
  C10.  \<open>parseConstant\<close> always returns, and every Success it returns is the starting
  Success with only its end and its witness replaced: the annotations and the context
  are those of the starting Success.  A Failure it returns has no annotation, whatever
  the starting Success had, and it returns one exactly when it returns no Success.
\<close>

theorem parseConstant_frame:
  "\<exists>successes failure.
     parseConstant constant witness input success = Inr (successes, failure)
     \<and> (\<forall>s \<in> set successes.
          s_annotations s = s_annotations success
          \<and> s_context s = s_context success
          \<and> s = success\<lparr>s_end := s_end s, s_witness := s_witness s\<rparr>)
     \<and> (\<forall>f. failure = Some f \<longrightarrow> f_annotations f = [])
     \<and> (successes = [] \<longleftrightarrow> failure \<noteq> None)"
  by (simp add: parseConstant_cases)

theorem parseConstant_frame_witness:
  "parseConstant ''launch'' (WStr ''launch'') ''launch''
     \<lparr>s_annotations = [7, 8], s_context = True, s_end = 0, s_witness = WNull\<rparr> =
     Inr ([\<lparr>s_annotations = [7, 8], s_context = True, s_end = 6,
            s_witness = WStr ''launch''\<rparr>],
          None)
   \<and> map_option f_annotations
        (snd (projr (parseConstant ''launch'' (WStr ''launch'') ''lau''
                       \<lparr>s_annotations = [7, 8], s_context = True, s_end = 0,
                        s_witness = WNull\<rparr>))) =
     Some []"
  using parseConstant_frame [of "''launch''" "WStr ''launch''" "''launch''"
          "\<lparr>s_annotations = [7, 8], s_context = True, s_end = 0, s_witness = WNull\<rparr>"]
        parseConstant_frame [of "''launch''" "WStr ''launch''" "''lau''"
          "\<lparr>s_annotations = [7, 8], s_context = True, s_end = 0, s_witness = WNull\<rparr>"]
  by (simp add: parseConstant_cases)

section \<open>parseFail\<close>

text \<open>
  C4, as the program has it.  For every input and every starting Success,
  \<open>parseFail\<close> returns no Success and exactly one Failure, whose end is the end of the
  starting Success, whose completions and annotations are empty, and whose pause is
  false: \<open>parseFail\<close> passes \<open>false\<close> as the fourth argument of the constructor, so
  the default \<open>completions.length == 0\<close> is not used.
\<close>

theorem parseFail_result:
  "parseFail input success =
     Inr ([],
          Some \<lparr>f_annotations = [], f_completions = [], f_end = Offset (s_end success),
                f_pause = False\<rparr>)"
  by (simp add: parseFail_def Failure_def)

text \<open>
  C4 as stated fails: on the empty input, from the initial Success, the pause of the
  Failure that \<open>parseFail\<close> returns is not true, although its completions are empty
  and the constructor's default would have made it true.
\<close>

theorem parseFail_pause_counterexample:
  "map_option f_pause (snd (projr (parseFail [] (initial ())))) = Some False
   \<and> f_pause (Failure [] [] (Offset 0) None) = True"
  by (simp add: parseFail_def Failure_def)

section \<open>parseWithCompletions\<close>

text \<open>
  \<open>furthestSuccess\<close> of a non-empty list of Successes is the greatest of their ends.
\<close>

lemma furthestSuccess_Nil: "furthestSuccess [] = NegInfinity"
  by (simp add: furthestSuccess_def)

lemma max_Offset: "max (Offset m) (Offset n) = Offset (max m n)"
  by (simp add: max_def)

lemma max_NegInfinity: "max x NegInfinity = x"
  by (cases x) (simp_all add: max_def)

lemma furthestSuccess_Cons:
  "furthestSuccess (s # successes) = max (Offset (s_end s)) (furthestSuccess successes)"
  by (simp add: furthestSuccess_def)

lemma furthestSuccess_Max:
  "successes \<noteq> [] \<Longrightarrow> furthestSuccess successes = Offset (Max (s_end ` set successes))"
proof (induction successes)
  case Nil
  then show ?case by simp
next
  case (Cons s successes)
  show ?case
  proof (cases "successes = []")
    case True
    then show ?thesis
      by (simp add: furthestSuccess_Cons furthestSuccess_Nil max_NegInfinity)
  next
    case False
    then have "furthestSuccess successes = Offset (Max (s_end ` set successes))"
      by (rule Cons.IH)
    then show ?thesis
      using False by (simp add: furthestSuccess_Cons max_Offset)
  qed
qed

text \<open>
  C3.  When the inner parser returns a Failure, \<open>parseWithCompletions\<close> returns the
  same Successes and a Failure with the inner Failure's annotations and end, with exactly
  the completions that \<open>makeCompletions\<close> returns (those of the inner Failure are
  dropped) and with pause false.  When the inner parser returns no Failure and
  \<open>makeCompletions\<close> returns the empty list, the result has no Failure.  When the
  inner parser returns no Failure and \<open>makeCompletions\<close> returns a non-empty list, the
  result has a Failure with those completions and pause false, whose end is the greatest
  end of the Successes (and \<open>-Infinity\<close> if the inner parser returned none).
\<close>

theorem parseWithCompletions_result:
  "(parser input success = Inr (successes, Some f) \<longrightarrow>
      parseWithCompletions makeCompletions parser input success =
        Inr (successes,
             Some \<lparr>f_annotations = f_annotations f,
                   f_completions = makeCompletions (s_context success) (Some f) (s_end success),
                   f_end = f_end f,
                   f_pause = False\<rparr>))
   \<and> (parser input success = Inr (successes, None)
        \<and> makeCompletions (s_context success) None (s_end success) = [] \<longrightarrow>
      parseWithCompletions makeCompletions parser input success = Inr (successes, None))
   \<and> (parser input success = Inr (successes, None)
        \<and> makeCompletions (s_context success) None (s_end success) \<noteq> [] \<longrightarrow>
      parseWithCompletions makeCompletions parser input success =
        Inr (successes,
             Some \<lparr>f_annotations = mergeSuccessAnnotations successes,
                   f_completions = makeCompletions (s_context success) None (s_end success),
                   f_end = (if successes = [] then NegInfinity
                            else Offset (Max (s_end ` set successes))),
                   f_pause = False\<rparr>))"
  by (simp add: parseWithCompletions_def Failure_def furthestSuccess_Max furthestSuccess_Nil)

theorem parseWithCompletions_witness:
  "parseWithCompletions (\<lambda>context failure start. [''x'', ''y''])
     (parseConstant ''launch'' (WStr ''launch'')) ''lau'' (initial ()) =
     Inr ([],
          Some \<lparr>f_annotations = [], f_completions = [''x'', ''y''], f_end = Offset 3,
                f_pause = False\<rparr>)
   \<and> parseWithCompletions (\<lambda>context failure start. [])
       (parseConstant ''launch'' (WStr ''launch'')) ''launch'' (initial ()) =
     Inr ([\<lparr>s_annotations = [], s_context = (), s_end = 6, s_witness = WStr ''launch''\<rparr>],
          None)
   \<and> parseWithCompletions (\<lambda>context failure start. [''0'', ''1''])
       (parseAlternatives (parseEmpty (WStr ''empty'')) (parseConstant ''a'' (WStr ''a'')))
       ''a'' (initial ()) =
     Inr ([\<lparr>s_annotations = [], s_context = (), s_end = 0, s_witness = WStr ''empty''\<rparr>,
           \<lparr>s_annotations = [], s_context = (), s_end = 1, s_witness = WStr ''a''\<rparr>],
          Some \<lparr>f_annotations = [], f_completions = [''0'', ''1''], f_end = Offset 1,
                f_pause = False\<rparr>)"
  using parseWithCompletions_result
          [of "parseConstant ''launch'' (WStr ''launch'')" "''lau''" "initial ()" "[]"
              "\<lparr>f_annotations = [], f_completions = [''nch''], f_end = Offset 3,
                f_pause = False\<rparr>"
              "\<lambda>context failure start. [''x'', ''y'']"]
        parseWithCompletions_result
          [of "parseConstant ''launch'' (WStr ''launch'')" "''launch''" "initial ()"
              "[\<lparr>s_annotations = [], s_context = (), s_end = 6, s_witness = WStr ''launch''\<rparr>]"
              _ "\<lambda>context failure start. []"]
        parseWithCompletions_result
          [of "parseAlternatives (parseEmpty (WStr ''empty'')) (parseConstant ''a'' (WStr ''a''))"
              "''a''" "initial ()"
              "[\<lparr>s_annotations = [], s_context = (), s_end = 0, s_witness = WStr ''empty''\<rparr>,
                \<lparr>s_annotations = [], s_context = (), s_end = 1, s_witness = WStr ''a''\<rparr>]"
              _ "\<lambda>context failure start. [''0'', ''1'']"]
  by (simp add: parseConstant_cases parseAlternatives_def parseEmpty_def initial_def
        furthestSuccess_def mergeFailures_def failure_from_def mergeSuccessAnnotations_def
        mergeAnnotations_def new_Set_def Let_def)

section \<open>normalizeCompletions\<close>

lemma prefix_le: "prefix a b \<Longrightarrow> a \<le> (b :: 'a :: linorder list)"
proof (induction a arbitrary: b)
  case Nil
  then show ?case by simp
next
  case (Cons x a)
  then show ?case by (cases b) auto
qed

lemma prefix_between:
  "prefix a c \<Longrightarrow> a \<le> b \<Longrightarrow> b \<le> c \<Longrightarrow> prefix a (b :: 'a :: linorder list)"
proof (induction a arbitrary: b c)
  case Nil
  then show ?case by simp
next
  case (Cons x a)
  from Cons.prems(1) obtain c' where c: "c = x # c'" and p: "prefix a c'"
    by (cases c) auto
  from Cons.prems(2) obtain y b' where b: "b = y # b'"
    by (cases b) auto
  from Cons.prems(2,3) have "x = y" and "a \<le> b'" and "b' \<le> c'"
    unfolding b c by auto
  with Cons.IH[OF p] show ?case
    unfolding b by simp
qed

lemma loop_retain:
  "accumulator \<noteq> [] \<Longrightarrow> i = length accumulator - 1 \<Longrightarrow>
   fst (foldl (\<lambda>(accumulator, i) c.
                 if \<not> prefix (accumulator ! i) c
                 then (accumulator @ [c], i + 1)
                 else (accumulator, i))
          (accumulator, i) cs) =
   accumulator @ retain (last accumulator) cs"
proof (induction cs arbitrary: accumulator i)
  case Nil
  then show ?case by simp
next
  case (Cons c cs)
  have l: "accumulator ! i = last accumulator"
    using Cons.prems by (simp add: last_conv_nth)
  show ?case
  proof (cases "prefix (last accumulator) c")
    case True
    then show ?thesis
      using Cons.IH[OF Cons.prems] l by simp
  next
    case False
    have "fst (foldl (\<lambda>(accumulator, i) c.
                 if \<not> prefix (accumulator ! i) c
                 then (accumulator @ [c], i + 1)
                 else (accumulator, i))
          (accumulator @ [c], i + 1) cs) =
          (accumulator @ [c]) @ retain (last (accumulator @ [c])) cs"
      by (rule Cons.IH) (use Cons.prems in auto)
    then show ?thesis
      using False l by simp
  qed
qed

lemma normalizeCompletions_retain:
  "normalizeCompletions completions =
     (case sort completions of [] \<Rightarrow> [] | x # rest \<Rightarrow> x # retain x rest)"
proof (cases "sort completions")
  case Nil
  then have "completions = []"
    by (metis length_sort length_0_conv)
  then show ?thesis
    by (simp add: normalizeCompletions_def)
next
  case (Cons x rest)
  then have "completions \<noteq> []" by auto
  then show ?thesis
    using Cons loop_retain[of "[x]" 0 rest]
    by (simp add: normalizeCompletions_def)
qed

lemma retain_subset: "set (retain l cs) \<subseteq> set cs"
  by (induction cs arbitrary: l) auto

lemma retain_iff:
  "sorted (l # cs) \<Longrightarrow>
   y \<in> set (retain l cs) \<longleftrightarrow>
     y \<in> set cs \<and> \<not> prefix l y \<and> (\<forall>z \<in> set cs. prefix z y \<longrightarrow> z = y)"
proof (induction cs arbitrary: l)
  case Nil
  then show ?case by simp
next
  case (Cons c cs)
  have lc: "l \<le> c" and ccs: "\<forall>z \<in> set cs. c \<le> z" and s1: "sorted (l # cs)" and s2: "sorted (c # cs)"
    using Cons.prems by auto
  show ?case
  proof (cases "prefix l c")
    case True
    have "prefix c y \<Longrightarrow> prefix l y"
      using True by (metis prefix_order.order_trans)
    then show ?thesis
      using Cons.IH[OF s1] True by auto
  next
    case False
    have a: "\<And>z. z \<in> set cs \<Longrightarrow> prefix z c \<Longrightarrow> z = c"
      using ccs prefix_le by fastforce
    have b: "y \<in> set cs \<Longrightarrow> prefix l y \<Longrightarrow> False"
      using prefix_between[of l y c] lc ccs False by auto
    show ?thesis
      using Cons.IH[OF s2] False a b by auto
  qed
qed

lemma retain_sorted: "sorted cs \<Longrightarrow> sorted (retain l cs)"
proof (induction cs arbitrary: l)
  case Nil
  then show ?case by simp
next
  case (Cons c cs)
  then show ?case
    using retain_subset[of c cs] by auto
qed

lemma retain_distinct: "sorted (l # cs) \<Longrightarrow> distinct (retain l cs)"
proof (induction cs arbitrary: l)
  case Nil
  then show ?case by simp
next
  case (Cons c cs)
  have s1: "sorted (l # cs)" and s2: "sorted (c # cs)"
    using Cons.prems by auto
  have "c \<notin> set (retain c cs)"
    using retain_iff[OF s2, of c] by simp
  then show ?case
    using Cons.IH[OF s1] Cons.IH[OF s2] by simp
qed

lemma retain_fixed:
  "\<forall>y \<in> set cs. \<not> prefix l y \<Longrightarrow> \<forall>a \<in> set cs. \<forall>b \<in> set cs. prefix a b \<longrightarrow> a = b \<Longrightarrow>
   distinct cs \<Longrightarrow> retain l cs = cs"
proof (induction cs arbitrary: l)
  case Nil
  then show ?case by simp
next
  case (Cons c cs)
  have "\<forall>y \<in> set cs. \<not> prefix c y"
    using Cons.prems(2,3) by auto
  then have "retain c cs = cs"
    using Cons.prems by (intro Cons.IH) auto
  then show ?case
    using Cons.prems(1) by simp
qed

lemma normalizeCompletions_set:
  "set (normalizeCompletions xs) = {x \<in> set xs. \<forall>y \<in> set xs. prefix y x \<longrightarrow> y = x}"
proof (cases "sort xs")
  case Nil
  then have "xs = []"
    by (metis length_sort length_0_conv)
  then show ?thesis
    by (simp add: normalizeCompletions_def)
next
  case (Cons x rest)
  have s: "sorted (x # rest)"
    using sorted_sort[of xs] Cons by simp
  have e: "set xs = set (x # rest)"
    using set_sort[of "\<lambda>x. x" xs] Cons by simp
  have m: "\<And>z. z \<in> set rest \<Longrightarrow> prefix z x \<Longrightarrow> z = x"
    using s prefix_le by fastforce
  have "y \<in> set (x # retain x rest) \<longleftrightarrow>
          y \<in> set (x # rest) \<and> (\<forall>z \<in> set (x # rest). prefix z y \<longrightarrow> z = y)" for y
    using retain_iff[OF s, of y] m by auto
  then show ?thesis
    unfolding normalizeCompletions_retain Cons e by auto
qed

lemma normalizeCompletions_sorted: "sorted (normalizeCompletions xs)"
proof (cases "sort xs")
  case Nil
  then show ?thesis by (simp add: normalizeCompletions_retain)
next
  case (Cons x rest)
  have s: "sorted (x # rest)"
    using sorted_sort[of xs] Cons by simp
  then have "sorted (x # retain x rest)"
    using retain_sorted[of rest x] retain_subset[of x rest] by auto
  then show ?thesis
    by (simp add: normalizeCompletions_retain Cons)
qed

lemma normalizeCompletions_distinct: "distinct (normalizeCompletions xs)"
proof (cases "sort xs")
  case Nil
  then show ?thesis by (simp add: normalizeCompletions_retain)
next
  case (Cons x rest)
  have s: "sorted (x # rest)"
    using sorted_sort[of xs] Cons by simp
  have "x \<notin> set (retain x rest)"
    using retain_iff[OF s, of x] by simp
  then show ?thesis
    using retain_distinct[OF s] by (simp add: normalizeCompletions_retain Cons)
qed

lemma normalizeCompletions_prefix_free:
  "x \<in> set (normalizeCompletions xs) \<Longrightarrow> y \<in> set (normalizeCompletions xs) \<Longrightarrow>
   prefix x y \<Longrightarrow> x = y"
  unfolding normalizeCompletions_set by auto

lemma normalizeCompletions_idem:
  "normalizeCompletions (normalizeCompletions xs) = normalizeCompletions xs"
proof (cases "normalizeCompletions xs")
  case Nil
  then show ?thesis by (simp add: normalizeCompletions_def)
next
  case (Cons x rest)
  have "sorted (x # rest)"
    using normalizeCompletions_sorted[of xs] unfolding Cons .
  then have "sort (x # rest) = x # rest"
    by (rule sorted_sort_id)
  moreover have "retain x rest = rest"
  proof (rule retain_fixed)
    show "\<forall>y \<in> set rest. \<not> prefix x y"
      using normalizeCompletions_prefix_free[of x xs] normalizeCompletions_distinct[of xs] Cons
      by auto
    show "\<forall>a \<in> set rest. \<forall>b \<in> set rest. prefix a b \<longrightarrow> a = b"
      using normalizeCompletions_prefix_free[of _ xs] Cons by auto
    show "distinct rest"
      using normalizeCompletions_distinct[of xs] Cons by simp
  qed
  ultimately show ?thesis
    unfolding Cons by (simp add: normalizeCompletions_retain[of "x # rest"])
qed

text \<open>
  C7.  \<open>normalizeCompletions\<close> is idempotent, no element of its result is a proper
  extension of another element of the result, and the result holds exactly the strings
  of the argument of which no proper prefix is in the argument, each once.
\<close>

theorem normalizeCompletions_idempotent_prefix_free:
  "normalizeCompletions (normalizeCompletions xs) = normalizeCompletions xs
   \<and> (\<forall>x \<in> set (normalizeCompletions xs). \<forall>y \<in> set (normalizeCompletions xs).
        \<not> strict_prefix x y)
   \<and> set (normalizeCompletions xs) = {x \<in> set xs. \<forall>y \<in> set xs. \<not> strict_prefix y x}
   \<and> distinct (normalizeCompletions xs)"
  using normalizeCompletions_idem[of xs] normalizeCompletions_prefix_free[of _ xs]
    normalizeCompletions_distinct[of xs]
  unfolding normalizeCompletions_set strict_prefix_def
  by auto

theorem normalizeCompletions_witness:
  "normalizeCompletions [''yesterday'', ''yes'', ''no'', ''yes''] = [''no'', ''yes'']
   \<and> normalizeCompletions [''no'', ''yes''] = [''no'', ''yes'']
   \<and> strict_prefix ''yes'' ''yesterday''"
  using normalizeCompletions_idempotent_prefix_free [of "[''yesterday'', ''yes'', ''no'', ''yes'']"]
  by (simp add: normalizeCompletions_def)


section \<open>mergeAnnotations\<close>

lemma foldl_set_add_set: "set (foldl set_add s xs) = set s \<union> set xs"
  by (induction xs arbitrary: s) (auto simp: set_add_def)

lemma foldl_set_add_distinct: "distinct s \<Longrightarrow> distinct (foldl set_add s xs)"
  by (induction xs arbitrary: s) (auto simp: set_add_def)

text \<open>
  C8, as the program has it.  \<open>mergeAnnotations\<close> collects the annotations in a
  \<open>Set\<close>, which holds each object once and tells objects apart by reference.  So the
  result is the union of the two lists as sets of annotation objects, each object once:
  \<open>mergeAnnotations(A, A)\<close> is \<open>A\<close> as a set, and \<open>mergeAnnotations(A, B)\<close> and
  \<open>mergeAnnotations(B, A)\<close> are equal as sets.
\<close>

theorem mergeAnnotations_union:
  "set (mergeAnnotations annotations1 annotations2) = set annotations1 \<union> set annotations2
   \<and> distinct (mergeAnnotations annotations1 annotations2)
   \<and> set (mergeAnnotations annotations1 annotations1) = set annotations1
   \<and> set (mergeAnnotations annotations1 annotations2) =
       set (mergeAnnotations annotations2 annotations1)"
  by (auto simp: mergeAnnotations_def new_Set_def foldl_set_add_set foldl_set_add_distinct)

text \<open>
  C8 as stated fails: the union is not taken under structural equality.  In a store
  where the references 0 and 1 are two annotation objects with the same start, the same
  end and the same label, \<open>equals\<close> holds between the two, and merging the list of the
  one with the list of the other keeps both.
\<close>

theorem mergeAnnotations_counterexample:
  "equals
     (the ([0 \<mapsto> \<lparr>a_label = [(''tag'', ''help'')], a_start = 0, a_end = 2\<rparr>,
            1 \<mapsto> \<lparr>a_label = [(''tag'', ''help'')], a_start = 0, a_end = 2\<rparr>] (0::aref)))
     (the ([0 \<mapsto> \<lparr>a_label = [(''tag'', ''help'')], a_start = 0, a_end = 2\<rparr>,
            1 \<mapsto> \<lparr>a_label = [(''tag'', ''help'')], a_start = 0, a_end = 2\<rparr>] (1::aref)))
   \<and> mergeAnnotations [0] [1] = [0, 1]"
  by (simp add: equals_def labelsEqual_def mergeAnnotations_def new_Set_def set_add_def)

section \<open>The invariants of a result\<close>

text \<open>
  \<open>parseAlternatives\<close> keeps what \<open>parseCheckInvariants\<close> asserts: it drops
  a Failure that ends before the furthest Success.  When the results of both parsers
  pass the assertions, so does the result of their alternative.
\<close>

lemma parseAlternatives_keeps_invariants:
  assumes "parseCheckInvariants parser1 input success = Inr (r1, [])"
    and "parseCheckInvariants parser2 input success = Inr (r2, [])"
  shows "\<exists>r. parseCheckInvariants (parseAlternatives parser1 parser2) input success =
              Inr (r, [])"
proof -
  obtain s1 f1 s2 f2
    where r: "parser1 input success = Inr (s1, f1)" "parser2 input success = Inr (s2, f2)"
    using assms by (auto simp: parseCheckInvariants_def split: sum.splits)
  have i1: "case f1 of Some f \<Rightarrow> furthestSuccess s1 \<le> f_end f | None \<Rightarrow> s1 \<noteq> []"
    using assms(1) r
    by (auto simp: parseCheckInvariants_def Let_def split: option.splits if_splits)
  have i2: "case f2 of Some f \<Rightarrow> furthestSuccess s2 \<le> f_end f | None \<Rightarrow> s2 \<noteq> []"
    using assms(2) r
    by (auto simp: parseCheckInvariants_def Let_def split: option.splits if_splits)
  have w1: "concat (map (\<lambda>s. if s_witness s \<noteq> WNull then [] else [UndefinedWitness]) s1) = []"
    using assms(1) r by (simp add: parseCheckInvariants_def Let_def)
  have w2: "concat (map (\<lambda>s. if s_witness s \<noteq> WNull then [] else [UndefinedWitness]) s2) = []"
    using assms(2) r by (simp add: parseCheckInvariants_def Let_def)
  let ?fu = "furthestSuccess (s1 @ s2)"
  have k: "\<And>f g. failure_from ?fu f = Some g \<Longrightarrow> ?fu \<le> f_end g"
    by (auto simp: failure_from_def split: option.splits if_splits)
  have m: "\<And>a b g. mergeFailures a b = Some g \<Longrightarrow>
            (\<exists>h. (a = Some h \<or> b = Some h) \<and> f_end g = f_end h)"
    by (auto simp: mergeFailures_def Let_def Failure_def split: option.splits if_splits)
  have n: "mergeFailures (failure_from ?fu f1) (failure_from ?fu f2) = None \<Longrightarrow> s1 @ s2 \<noteq> []"
    using i1 i2
    by (auto simp: mergeFailures_def failure_from_def Let_def furthestSuccess_Nil
          split: option.splits if_splits)
  have alt: "parseAlternatives parser1 parser2 input success =
               Inr (s1 @ s2, mergeFailures (failure_from ?fu f1) (failure_from ?fu f2))"
    using r by (simp add: parseAlternatives_def Let_def)
  show ?thesis
  proof (cases "mergeFailures (failure_from ?fu f1) (failure_from ?fu f2)")
    case None
    from n[OF None] have "s1 @ s2 \<noteq> []" .
    then show ?thesis
      unfolding parseCheckInvariants_def alt None
      by (simp add: w1 w2)
  next
    case (Some g)
    then have "?fu \<le> f_end g"
      using m[OF Some] k by metis
    then show ?thesis
      unfolding parseCheckInvariants_def alt Some
      by (simp add: w1 w2)
  qed
qed

section \<open>Runs of the combinators\<close>

lemmas parser_eval =
  parseFail_def parseEmpty_def parseConstant_cases parseAlternatives_def parseChoice_def
  parseChain_def parseThen_def parseTransform_def parseNonEmpty_def categorize_def
  furthestSuccess_def mergeFailures_def failure_from_def Failure_def prependAnnotations_def
  mergeAnnotations_def new_Set_def set_add_def normalizeCompletions_def
  cons_spread_def spread_def set_delete_def initial_def Let_def

text \<open>
  C1.  The parser \<open>parseAlternatives(parseEmpty("empty"), parseConstant("a"))\<close>, on
  the input \<open>a\<close> from the initial Success, returns a Success at 0 and a Success at 1
  and no Failure, and \<open>parseCheckInvariants\<close> reports nothing.  \<open>parseNonEmpty\<close>
  of that parser drops the Success at 0 and adds a Failure at the start, 0, which is
  before the Success at 1 that it keeps: \<open>parseCheckInvariants\<close> reports that the
  Failure's end is earlier than the furthest Success's end.
\<close>

theorem parseNonEmpty_failure_before_success:
  "parseCheckInvariants
     (parseAlternatives (parseEmpty (WStr ''empty'')) (parseConstant ''a'' (WStr ''a'')))
     ''a'' (initial c) =
     Inr (([\<lparr>s_annotations = [], s_context = c, s_end = 0, s_witness = WStr ''empty''\<rparr>,
            \<lparr>s_annotations = [], s_context = c, s_end = 1, s_witness = WStr ''a''\<rparr>],
           None),
          [])
   \<and> parseCheckInvariants
       (parseNonEmpty
          (parseAlternatives (parseEmpty (WStr ''empty'')) (parseConstant ''a'' (WStr ''a''))))
       ''a'' (initial c) =
     Inr (([\<lparr>s_annotations = [], s_context = c, s_end = 1, s_witness = WStr ''a''\<rparr>],
           Some \<lparr>f_annotations = [], f_completions = [], f_end = Offset 0,
                 f_pause = False\<rparr>),
          [FailureEndBeforeFurthestSuccess])"
  by (simp add: parseCheckInvariants_def parser_eval)

text \<open>
  C6, as the program has it.  \<open>parseChoice(parseConstant("cat"), parseConstant("car"))\<close>
  on the input \<open>ca\<close> from position 0 returns no Success and one merged Failure at 2,
  whose completions are \<open>r\<close> and \<open>t\<close> in this order (\<open>normalizeCompletions\<close>
  sorts them) and whose pause is false.
\<close>

theorem parseChoice_cat_car:
  "parseChoice [parseConstant ''cat'' (WStr ''cat''), parseConstant ''car'' (WStr ''car'')]
     ''ca'' (initial c) =
     Inr ([],
          Some \<lparr>f_annotations = [], f_completions = [''r'', ''t''], f_end = Offset 2,
                f_pause = False\<rparr>)"
  by (simp add: parser_eval)

text \<open>C6 as stated fails: the list of completions is not \<open>t\<close> followed by \<open>r\<close>.\<close>

theorem parseChoice_cat_car_counterexample:
  "map_option f_completions
     (snd (projr (parseChoice
                    [parseConstant ''cat'' (WStr ''cat''), parseConstant ''car'' (WStr ''car'')]
                    ''ca'' (initial ())))) \<noteq>
   Some [''t'', ''r'']"
  by (simp add: parser_eval)

lemma join_with_empty: "join_with [] xs = concat xs"
  by (induction xs rule: induct_list012) auto

lemma join_strings: "join (WList (map WStr xs)) = Inr (WStr (concat xs))"
  by (simp add: join_def join_with_empty comp_def)

lemma parseKleene_abab:
  "parseKleene (Suc (Suc (Suc n))) (parseConstant ''ab'' (WStr ''ab'')) ''abab'' (initial c) =
     Inr ([\<lparr>s_annotations = [], s_context = c, s_end = 0, s_witness = WList []\<rparr>,
           \<lparr>s_annotations = [], s_context = c, s_end = 2, s_witness = WList [WStr ''ab'']\<rparr>,
           \<lparr>s_annotations = [], s_context = c, s_end = 4,
            s_witness = WList [WStr ''ab'', WStr ''ab'']\<rparr>],
          Some \<lparr>f_annotations = [], f_completions = [''ab''], f_end = Offset 4,
                f_pause = False\<rparr>)"
  by (simp add: parser_eval)

lemma parseKleene_ababa:
  "parseKleene (Suc (Suc (Suc n))) (parseConstant ''ab'' (WStr ''ab'')) ''ababa'' (initial c) =
     Inr ([\<lparr>s_annotations = [], s_context = c, s_end = 0, s_witness = WList []\<rparr>,
           \<lparr>s_annotations = [], s_context = c, s_end = 2, s_witness = WList [WStr ''ab'']\<rparr>,
           \<lparr>s_annotations = [], s_context = c, s_end = 4,
            s_witness = WList [WStr ''ab'', WStr ''ab'']\<rparr>],
          Some \<lparr>f_annotations = [], f_completions = [''b''], f_end = Offset 5,
                f_pause = False\<rparr>)"
  by (simp add: parser_eval)

text \<open>
  C5, as the program has it.  Let \<open>mergeWitnesses\<close> concatenate a list of string
  witnesses, and let the depth allowed to \<open>parseKleene\<close> be 3 or more.  Then
  \<open>parseStar(mergeWitnesses, parseConstant("ab"))\<close> from position 0 returns, on the
  input \<open>abab\<close>, Successes at 0, 2 and 4, the last with the witness \<open>abab\<close>, and
  a Failure at 4; on the input \<open>ababa\<close> it returns the same three Successes and a
  Failure at 5 whose only completion is \<open>b\<close> and whose pause is false, as in every
  Failure of \<open>parseConstant\<close>.
\<close>

theorem parseStar_ab:
  assumes "\<forall>xs. mergeWitnesses (WList (map WStr xs)) = Inr (WStr (concat xs))"
  shows
  "parseStar (Suc (Suc (Suc n))) mergeWitnesses (parseConstant ''ab'' (WStr ''ab''))
     ''abab'' (initial c) =
     Inr ([\<lparr>s_annotations = [], s_context = c, s_end = 0, s_witness = WStr []\<rparr>,
           \<lparr>s_annotations = [], s_context = c, s_end = 2, s_witness = WStr ''ab''\<rparr>,
           \<lparr>s_annotations = [], s_context = c, s_end = 4, s_witness = WStr ''abab''\<rparr>],
          Some \<lparr>f_annotations = [], f_completions = [''ab''], f_end = Offset 4,
                f_pause = False\<rparr>)
   \<and> parseStar (Suc (Suc (Suc n))) mergeWitnesses (parseConstant ''ab'' (WStr ''ab''))
       ''ababa'' (initial c) =
     Inr ([\<lparr>s_annotations = [], s_context = c, s_end = 0, s_witness = WStr []\<rparr>,
           \<lparr>s_annotations = [], s_context = c, s_end = 2, s_witness = WStr ''ab''\<rparr>,
           \<lparr>s_annotations = [], s_context = c, s_end = 4, s_witness = WStr ''abab''\<rparr>],
          Some \<lparr>f_annotations = [], f_completions = [''b''], f_end = Offset 5,
                f_pause = False\<rparr>)"
proof -
  have 0: "mergeWitnesses (WList []) = Inr (WStr [])"
    using assms[rule_format, of "[]"] by simp
  have 1: "mergeWitnesses (WList [WStr ''ab'']) = Inr (WStr ''ab'')"
    using assms[rule_format, of "[''ab'']"] by simp
  have 2: "mergeWitnesses (WList [WStr ''ab'', WStr ''ab'']) = Inr (WStr ''abab'')"
    using assms[rule_format, of "[''ab'', ''ab'']"] by simp
  show ?thesis
    unfolding parseStar_def parseTransform_def parseKleene_abab parseKleene_ababa
    by (simp add: 0 1 2)
qed

text \<open>
  The instance of C5 with the function \<open>witnesses => witnesses.join("")\<close>, which
  concatenates string witnesses.
\<close>

theorem parseStar_ab_witness:
  "parseStar 3 join (parseConstant ''ab'' (WStr ''ab'')) ''abab'' (initial ()) =
     Inr ([\<lparr>s_annotations = [], s_context = (), s_end = 0, s_witness = WStr []\<rparr>,
           \<lparr>s_annotations = [], s_context = (), s_end = 2, s_witness = WStr ''ab''\<rparr>,
           \<lparr>s_annotations = [], s_context = (), s_end = 4, s_witness = WStr ''abab''\<rparr>],
          Some \<lparr>f_annotations = [], f_completions = [''ab''], f_end = Offset 4,
                f_pause = False\<rparr>)
   \<and> parseStar 3 join (parseConstant ''ab'' (WStr ''ab'')) ''ababa'' (initial ()) =
     Inr ([\<lparr>s_annotations = [], s_context = (), s_end = 0, s_witness = WStr []\<rparr>,
           \<lparr>s_annotations = [], s_context = (), s_end = 2, s_witness = WStr ''ab''\<rparr>,
           \<lparr>s_annotations = [], s_context = (), s_end = 4, s_witness = WStr ''abab''\<rparr>],
          Some \<lparr>f_annotations = [], f_completions = [''b''], f_end = Offset 5,
                f_pause = False\<rparr>)"
  using parseStar_ab [of join 0 "()"] join_strings
  by (simp add: numeral_3_eq_3)

text \<open>
  C5 as stated fails: on the input \<open>ababa\<close> the Failure is at 5 and its pause is
  false, not true.
\<close>

theorem parseStar_ababa_counterexample:
  "map_option f_end
     (snd (projr (parseStar 3 join (parseConstant ''ab'' (WStr ''ab'')) ''ababa'' (initial ())))) =
   Some (Offset 5)
   \<and> map_option f_pause
     (snd (projr (parseStar 3 join (parseConstant ''ab'' (WStr ''ab'')) ''ababa'' (initial ())))) =
   Some False"
  by code_simp

section \<open>parseSubset\<close>

text \<open>
  Where the Successes of the combinators come from, and what witnesses they carry.
\<close>

lemma map_throwing_member:
  "map_throwing f xs = Inr ys \<Longrightarrow> y \<in> set ys \<Longrightarrow> \<exists>x \<in> set xs. f x = Inr y"
proof (induction xs arbitrary: ys)
  case Nil
  then show ?case by simp
next
  case (Cons x xs)
  then show ?case
    by (auto split: sum.splits)
qed

lemma chain_loop_member:
  "chain_loop mergeWitnesses chain input successes1 (failure0, furthest0, successes0) =
     Inr (failure, furthest, successes) \<Longrightarrow>
   s \<in> set (concat successes) \<Longrightarrow>
   s \<in> set (concat successes0)
   \<or> (\<exists>s1 \<in> set successes1. \<exists>s2 f2 x.
         chain s1 input s1 = Inr (s2, f2) \<and> x \<in> set s2
         \<and> mergeWitnesses (s_witness s1) (s_witness x) = Inr (s_witness s))"
proof (induction successes1 arbitrary: failure0 furthest0 successes0)
  case Nil
  then show ?case by simp
next
  case (Cons s1 rest)
  from Cons.prems(1) obtain s2 f2 merged failure' furthest'
    where c: "chain s1 input s1 = Inr (s2, f2)"
      and m: "map_throwing
                (\<lambda>s. case mergeWitnesses (s_witness s1) (s_witness s) of
                       Inl e \<Rightarrow> Inl e
                     | Inr w \<Rightarrow> Inr \<lparr>s_annotations = s_annotations s,
                                     s_context = s_context s,
                                     s_end = s_end s,
                                     s_witness = w\<rparr>)
                s2 = Inr merged"
      and l: "chain_loop mergeWitnesses chain input rest
                (failure', furthest', successes0 @ [merged]) =
              Inr (failure, furthest, successes)"
    by (auto simp: Let_def split: sum.splits prod.splits)
  from Cons.IH[OF l Cons.prems(2)]
  consider "s \<in> set (concat successes0)" | "s \<in> set merged"
    | "\<exists>s1 \<in> set rest. \<exists>s2 f2 x.
         chain s1 input s1 = Inr (s2, f2) \<and> x \<in> set s2
         \<and> mergeWitnesses (s_witness s1) (s_witness x) = Inr (s_witness s)"
    by auto
  then show ?case
  proof cases
    case 1
    then show ?thesis by simp
  next
    case 2
    from map_throwing_member[OF m 2] obtain x
      where x: "x \<in> set s2"
        and fx: "(case mergeWitnesses (s_witness s1) (s_witness x) of
                    Inl e \<Rightarrow> Inl e
                  | Inr w \<Rightarrow> Inr \<lparr>s_annotations = s_annotations x,
                                  s_context = s_context x,
                                  s_end = s_end x,
                                  s_witness = w\<rparr>) = Inr s"
      by auto
    then have "mergeWitnesses (s_witness s1) (s_witness x) = Inr (s_witness s)"
      by (cases "mergeWitnesses (s_witness s1) (s_witness x)") auto
    with c x show ?thesis by auto
  next
    case 3
    then show ?thesis by auto
  qed
qed

lemma parseChain_member:
  assumes "parseChain mergeWitnesses parser1 chain input success = Inr (successes, failure)"
    and "s \<in> set successes"
  shows "\<exists>successes1 failure1 s1 s2 f2 x.
           parser1 input success = Inr (successes1, failure1) \<and> s1 \<in> set successes1
           \<and> chain s1 input s1 = Inr (s2, f2) \<and> x \<in> set s2
           \<and> mergeWitnesses (s_witness s1) (s_witness x) = Inr (s_witness s)"
proof -
  from assms(1) obtain successes1 failure1 failure' furthest' collected
    where p: "parser1 input success = Inr (successes1, failure1)"
      and l: "chain_loop mergeWitnesses chain input successes1 (failure1, Offset 0, []) =
              Inr (failure', furthest', collected)"
      and r: "successes = concat collected"
    by (auto simp: parseChain_def split: sum.splits prod.splits)
  from chain_loop_member[OF l] assms(2) r p show ?thesis
    by fastforce
qed

lemma parseAlternatives_successes:
  assumes "parseAlternatives parser1 parser2 input success = Inr (successes, failure)"
  shows "\<exists>s1 f1 s2 f2.
           parser1 input success = Inr (s1, f1) \<and> parser2 input success = Inr (s2, f2)
           \<and> successes = s1 @ s2"
  using assms by (auto simp: parseAlternatives_def Let_def split: sum.splits prod.splits)

lemma choice_of_constants_member:
  "foldl parseAlternatives parser0 (map (\<lambda>c. parseConstant c (WStr c)) choices) input success =
     Inr (successes, failure) \<Longrightarrow>
   s \<in> set successes \<Longrightarrow>
   (\<exists>s0 f0. parser0 input success = Inr (s0, f0) \<and> s \<in> set s0)
   \<or> (\<exists>c \<in> set choices. s_witness s = WStr c)"
proof (induction choices arbitrary: parser0)
  case Nil
  then show ?case by simp
next
  case (Cons c choices)
  from Cons.IH[of "parseAlternatives parser0 (parseConstant c (WStr c))"] Cons.prems
  consider "\<exists>s0 f0. parseAlternatives parser0 (parseConstant c (WStr c)) input success =
                      Inr (s0, f0) \<and> s \<in> set s0"
    | "\<exists>c \<in> set choices. s_witness s = WStr c"
    by auto
  then show ?case
  proof cases
    case 1
    then obtain s0 f0
      where a: "parseAlternatives parser0 (parseConstant c (WStr c)) input success = Inr (s0, f0)"
        and s: "s \<in> set s0"
      by auto
    from parseAlternatives_successes[OF a] obtain s1 f1 s2 f2
      where "parser0 input success = Inr (s1, f1)"
        and "parseConstant c (WStr c) input success = Inr (s2, f2)"
        and "s0 = s1 @ s2"
      by auto
    with s show ?thesis
      by (auto simp: parseConstant_cases split: if_splits)
  next
    case 2
    then show ?thesis by auto
  qed
qed

lemma parseChoice_constants_member:
  assumes "parseChoice (map (\<lambda>c. parseConstant c (WStr c)) choices) input success =
             Inr (successes, failure)"
    and "s \<in> set successes"
  shows "\<exists>c \<in> set choices. s_witness s = WStr c"
  using choice_of_constants_member[OF assms[unfolded parseChoice_def]]
  by (auto simp: parseFail_def)

lemma set_new_Set: "set (new_Set xs) = set xs"
  by (simp add: new_Set_def foldl_set_add_set)

lemma choose_subset_distinct:
  "choose_subset fuel parseSeparator choices input success = Inr (successes, failure) \<Longrightarrow>
   s \<in> set successes \<Longrightarrow>
   \<exists>cs. s_witness s = WList (map WStr cs) \<and> distinct cs \<and> set cs \<subseteq> set choices"
proof (induction fuel arbitrary: choices input success successes failure s)
  case 0
  then show ?case by simp
next
  case (Suc fuel)
  let ?chain = "\<lambda>success.
          let fewer = set_delete (new_Set choices) (s_witness success)
          in if length fewer = 0
             then parseEmpty (WList [])
             else parseAlternatives
                    (parseEmpty (WList []))
                    (parseThen (\<lambda>s f. Inr f) parseSeparator
                       (choose_subset fuel parseSeparator fewer))"
  from Suc.prems(1)
  have "parseChain cons_spread (parseChoice (map (\<lambda>c. parseConstant c (WStr c)) choices))
          ?chain input success = Inr (successes, failure)"
    by simp
  from parseChain_member[OF this Suc.prems(2)] obtain successes1 failure1 s1 s2 f2 x
    where p: "parseChoice (map (\<lambda>c. parseConstant c (WStr c)) choices) input success =
                Inr (successes1, failure1)"
      and s1: "s1 \<in> set successes1"
      and c: "?chain s1 input s1 = Inr (s2, f2)"
      and x: "x \<in> set s2"
      and w: "cons_spread (s_witness s1) (s_witness x) = Inr (s_witness s)"
    by blast
  from parseChoice_constants_member[OF p s1] obtain c'
    where c': "c' \<in> set choices" and w1: "s_witness s1 = WStr c'"
    by auto
  let ?fewer = "set_delete (new_Set choices) (s_witness s1)"
  have fewer: "set ?fewer = set choices - {c'}"
    by (auto simp: w1 set_delete_def set_new_Set)
  have "\<exists>cs. s_witness x = WList (map WStr cs) \<and> distinct cs \<and> set cs \<subseteq> set ?fewer"
  proof (cases "?fewer = []")
    case True
    with c x have "s_witness x = WList []"
      by (auto simp: parseEmpty_def Let_def)
    then show ?thesis by simp
  next
    case False
    with c have "parseAlternatives
                    (parseEmpty (WList []))
                    (parseThen (\<lambda>s f. Inr f) parseSeparator
                       (choose_subset fuel parseSeparator ?fewer)) input s1 = Inr (s2, f2)"
      by (simp add: Let_def)
    from parseAlternatives_successes[OF this] obtain e1 g1 e2 g2
      where e1: "parseEmpty (WList []) input s1 = Inr (e1, g1)"
        and e2: "parseThen (\<lambda>s f. Inr f) parseSeparator
                   (choose_subset fuel parseSeparator ?fewer) input s1 = Inr (e2, g2)"
        and s2: "s2 = e1 @ e2"
      by auto
    from x s2 consider "x \<in> set e1" | "x \<in> set e2"
      by auto
    then show ?thesis
    proof cases
      case 1
      with e1 have "s_witness x = WList []"
        by (auto simp: parseEmpty_def)
      then show ?thesis by simp
    next
      case 2
      from parseChain_member[OF e2[unfolded parseThen_def] 2]
      obtain t1 t2 h2 y
        where "choose_subset fuel parseSeparator ?fewer input t1 = Inr (t2, h2)"
          and "y \<in> set t2" and "s_witness x = s_witness y"
        by auto
      with Suc.IH[of ?fewer input t1 t2 h2 y] show ?thesis
        by auto
    qed
  qed
  then obtain cs where cs: "s_witness x = WList (map WStr cs)" "distinct cs" "set cs \<subseteq> set ?fewer"
    by auto
  with w w1 have "s_witness s = WList (map WStr (c' # cs))"
    by (simp add: cons_spread_def spread_def)
  moreover have "distinct (c' # cs)" and "set (c' # cs) \<subseteq> set choices"
    using cs c' fewer by auto
  ultimately show ?case
    by blast
qed

lemma parseSubset_distinct:
  assumes "parseSubset fuel constants parseSeparator input success = Inr (successes, failure)"
    and "s \<in> set successes"
  shows "\<exists>cs. s_witness s = WList (map WStr cs) \<and> distinct cs \<and> set cs \<subseteq> set constants"
proof -
  from parseAlternatives_successes[OF assms(1)[unfolded parseSubset_def]] obtain e1 g1 e2 g2
    where e1: "parseEmpty (WList []) input success = Inr (e1, g1)"
      and e2: "choose_subset fuel parseSeparator (new_Set constants) input success = Inr (e2, g2)"
      and s: "successes = e1 @ e2"
    by auto
  from assms(2) s consider "s \<in> set e1" | "s \<in> set e2"
    by auto
  then show ?thesis
  proof cases
    case 1
    with e1 have "s_witness s = WList (map WStr [])"
      by (auto simp: parseEmpty_def)
    then show ?thesis
      by (intro exI[of _ "[]"]) simp
  next
    case 2
    from choose_subset_distinct[OF e2 2] show ?thesis
      by (simp add: set_new_Set)
  qed
qed

text \<open>
  C9.  \<open>parseSubset(constants, parseSeparator)\<close> accepts each constant at most once:
  for every array of constants, separator parser, input, starting Success and depth
  allowed to \<open>choose\<close>, the witness of every Success it returns is an array of
  constants in which no constant occurs twice.  For
  \<open>parseSubset(["a", "b", "c"], parseConstant(","))\<close>, with a depth of 3 or more,
  from position 0: on the empty input and on each of the inputs \<open>a\<close>, \<open>a,b\<close>
  and \<open>c,a,b\<close> exactly one Success consumes the whole input, and on the input
  \<open>a,a\<close> none does.
\<close>

theorem parseSubset_each_constant_once:
  "(parseSubset fuel constants parseSeparator input success = Inr (successes, failure) \<longrightarrow>
      (\<forall>s \<in> set successes.
         \<exists>cs. s_witness s = WList (map WStr cs) \<and> distinct cs \<and> set cs \<subseteq> set constants))
   \<and> check_valid
       (parseSubset (Suc (Suc (Suc n))) [''a'', ''b'', ''c''] (parseConstant '','' (WStr '','')))
       c [] =
     Inr [\<lparr>s_annotations = [], s_context = c, s_end = 0, s_witness = WList []\<rparr>]
   \<and> check_valid
       (parseSubset (Suc (Suc (Suc n))) [''a'', ''b'', ''c''] (parseConstant '','' (WStr '','')))
       c ''a'' =
     Inr [\<lparr>s_annotations = [], s_context = c, s_end = 1, s_witness = WList [WStr ''a'']\<rparr>]
   \<and> check_valid
       (parseSubset (Suc (Suc (Suc n))) [''a'', ''b'', ''c''] (parseConstant '','' (WStr '','')))
       c ''a,b'' =
     Inr [\<lparr>s_annotations = [], s_context = c, s_end = 3,
           s_witness = WList [WStr ''a'', WStr ''b'']\<rparr>]
   \<and> check_valid
       (parseSubset (Suc (Suc (Suc n))) [''a'', ''b'', ''c''] (parseConstant '','' (WStr '','')))
       c ''c,a,b'' =
     Inr [\<lparr>s_annotations = [], s_context = c, s_end = 5,
           s_witness = WList [WStr ''c'', WStr ''a'', WStr ''b'']\<rparr>]
   \<and> check_valid
       (parseSubset (Suc (Suc (Suc n))) [''a'', ''b'', ''c''] (parseConstant '','' (WStr '','')))
       c ''a,a'' =
     Inr []"
proof -
  have "parseSubset fuel constants parseSeparator input success = Inr (successes, failure) \<longrightarrow>
      (\<forall>s \<in> set successes.
         \<exists>cs. s_witness s = WList (map WStr cs) \<and> distinct cs \<and> set cs \<subseteq> set constants)"
    using parseSubset_distinct by blast
  moreover have "check_valid
       (parseSubset (Suc (Suc (Suc n))) [''a'', ''b'', ''c''] (parseConstant '','' (WStr '','')))
       c [] =
     Inr [\<lparr>s_annotations = [], s_context = c, s_end = 0, s_witness = WList []\<rparr>]"
    by (simp add: check_valid_def parseCommandText_def validParses_def parseSubset_def
          parser_eval)
  moreover have "check_valid
       (parseSubset (Suc (Suc (Suc n))) [''a'', ''b'', ''c''] (parseConstant '','' (WStr '','')))
       c ''a'' =
     Inr [\<lparr>s_annotations = [], s_context = c, s_end = 1, s_witness = WList [WStr ''a'']\<rparr>]"
    by (simp add: check_valid_def parseCommandText_def validParses_def parseSubset_def
          parser_eval)
  moreover have "check_valid
       (parseSubset (Suc (Suc (Suc n))) [''a'', ''b'', ''c''] (parseConstant '','' (WStr '','')))
       c ''a,b'' =
     Inr [\<lparr>s_annotations = [], s_context = c, s_end = 3,
           s_witness = WList [WStr ''a'', WStr ''b'']\<rparr>]"
    by (simp add: check_valid_def parseCommandText_def validParses_def parseSubset_def
          parser_eval)
  moreover have "check_valid
       (parseSubset (Suc (Suc (Suc n))) [''a'', ''b'', ''c''] (parseConstant '','' (WStr '','')))
       c ''c,a,b'' =
     Inr [\<lparr>s_annotations = [], s_context = c, s_end = 5,
           s_witness = WList [WStr ''c'', WStr ''a'', WStr ''b'']\<rparr>]"
    by (simp add: check_valid_def parseCommandText_def validParses_def parseSubset_def
          parser_eval)
  moreover have "check_valid
       (parseSubset (Suc (Suc (Suc n))) [''a'', ''b'', ''c''] (parseConstant '','' (WStr '','')))
       c ''a,a'' =
     Inr []"
    by (simp add: check_valid_def parseCommandText_def validParses_def parseSubset_def
          parser_eval)
  ultimately show ?thesis
    by blast
qed

text \<open>
  The instance of C9 on the input \<open>c,a,b\<close>: the run returns four Successes, and the
  witness of the one that consumes the whole input names three different constants.
\<close>

theorem parseSubset_each_constant_once_witness:
  "parseSubset 3 [''a'', ''b'', ''c''] (parseConstant '','' (WStr '','')) ''c,a,b'' (initial ()) =
     Inr ([\<lparr>s_annotations = [], s_context = (), s_end = 0, s_witness = WList []\<rparr>,
           \<lparr>s_annotations = [], s_context = (), s_end = 1, s_witness = WList [WStr ''c'']\<rparr>,
           \<lparr>s_annotations = [], s_context = (), s_end = 3,
            s_witness = WList [WStr ''c'', WStr ''a'']\<rparr>,
           \<lparr>s_annotations = [], s_context = (), s_end = 5,
            s_witness = WList [WStr ''c'', WStr ''a'', WStr ''b'']\<rparr>],
          None)
   \<and> (\<exists>cs. WList [WStr ''c'', WStr ''a'', WStr ''b''] = WList (map WStr cs)
             \<and> distinct cs \<and> set cs \<subseteq> set [''a'', ''b'', ''c''])"
proof -
  have run: "parseSubset 3 [''a'', ''b'', ''c''] (parseConstant '','' (WStr '',''))
               ''c,a,b'' (initial ()) =
     Inr ([\<lparr>s_annotations = [], s_context = (), s_end = 0, s_witness = WList []\<rparr>,
           \<lparr>s_annotations = [], s_context = (), s_end = 1, s_witness = WList [WStr ''c'']\<rparr>,
           \<lparr>s_annotations = [], s_context = (), s_end = 3,
            s_witness = WList [WStr ''c'', WStr ''a'']\<rparr>,
           \<lparr>s_annotations = [], s_context = (), s_end = 5,
            s_witness = WList [WStr ''c'', WStr ''a'', WStr ''b'']\<rparr>],
          None)"
    by (simp add: numeral_3_eq_3 parseSubset_def parser_eval)
  have "\<exists>cs. s_witness \<lparr>s_annotations = [], s_context = (), s_end = 5,
                         s_witness = WList [WStr ''c'', WStr ''a'', WStr ''b'']\<rparr> =
               WList (map WStr cs)
             \<and> distinct cs \<and> set cs \<subseteq> set [''a'', ''b'', ''c'']"
    by (rule parseSubset_each_constant_once [THEN conjunct1, rule_format, OF run]) simp
  then have "\<exists>cs. WList [WStr ''c'', WStr ''a'', WStr ''b''] = WList (map WStr cs)
             \<and> distinct cs \<and> set cs \<subseteq> set [''a'', ''b'', ''c'']"
    by simp
  with run show ?thesis
    by (rule conjI)
qed

end
